theory Spec2Isabelle
  imports Main "HOL-Library.Word"
begin

section \<open>The camera client (components/camera/client.go)\<close>

text \<open>
  A shallow embedding of the gRPC camera client. The protocol stub, the logger, the
  image codecs and the distortion-model constructors are collaborators outside the
  file: each call to one of them is a parameter of the function that makes it, so every
  theorem holds for whatever the collaborator answers.
\<close>

subsection \<open>Wire data\<close>

type_synonym bytes = "8 word list"

text \<open>An error is the text of its message; a transport error is whatever the stub returned.\<close>

type_synonym error = string

text \<open>
  \<^verbatim>\<open>errors.Wrap(err, msg)\<close> of github.com/pkg/errors: the message, a colon, the cause.
\<close>

definition Wrap :: "error \<Rightarrow> string \<Rightarrow> error" where
  "Wrap err msg = msg @ '': '' @ err"

text \<open>
  \<^verbatim>\<open>pb.Format\<close> is a protobuf enum, in Go an \<^verbatim>\<open>int32\<close>: a decoded message can carry
  any 32-bit value in the field, the five named constants or another one.
\<close>

type_synonym Format = "32 word"

definition Format_FORMAT_UNSPECIFIED :: Format where "Format_FORMAT_UNSPECIFIED = 0"
definition Format_FORMAT_RAW_RGBA :: Format where "Format_FORMAT_RAW_RGBA = 1"
definition Format_FORMAT_RAW_DEPTH :: Format where "Format_FORMAT_RAW_DEPTH = 2"
definition Format_FORMAT_JPEG :: Format where "Format_FORMAT_JPEG = 3"
definition Format_FORMAT_PNG :: Format where "Format_FORMAT_PNG = 4"

text \<open>The MIME type constants of the utils package that the client names.\<close>

definition MimeTypeRawRGBA :: string where "MimeTypeRawRGBA = ''image/vnd.viam.rgba''"
definition MimeTypeRawDepth :: string where "MimeTypeRawDepth = ''image/vnd.viam.dep''"
definition MimeTypeJPEG :: string where "MimeTypeJPEG = ''image/jpeg''"
definition MimeTypePNG :: string where "MimeTypePNG = ''image/png''"

text \<open>
  A value of the interface \<^verbatim>\<open>image.Image\<close> as the client produces it: the nil
  interface, a lazily encoded image (\<^verbatim>\<open>rimage.NewLazyEncodedImage(bytes, mime)\<close>, which
  stores the encoded bytes and the MIME type and decodes nothing), or an image a codec
  has decoded (\<open>'px\<close> is whatever the codec returns).
\<close>

datatype 'px image =
    NilImage
  | LazyEncodedImage bytes string
  | Decoded 'px

record pb_Image =
  pb_SourceName :: string
  pb_Format :: Format
  pb_Image :: bytes

record 'md GetImagesResponse =
  Images_of :: "pb_Image list"
  ResponseMetadata :: 'md

record 'px NamedImage =
  Image :: "'px image"
  SourceName :: string

subsection \<open>Images\<close>

text \<open>
  The body of the \<^verbatim>\<open>switch img.Format\<close> of \<^verbatim>\<open>Images\<close> (lines 206 to 221):
  \<open>rdkImage\<close> starts as the nil image, each \<^verbatim>\<open>case\<close> assigns it, and the switch has no
  \<^verbatim>\<open>default\<close>, so a tag that matches no case leaves it nil. \<open>decode\<close> is
  \<^verbatim>\<open>image.Decode\<close> of the Go standard library.
\<close>

definition Images_switch :: "(bytes \<Rightarrow> error + 'px) \<Rightarrow> pb_Image \<Rightarrow> error + 'px image" where
  "Images_switch decode img =
     (if pb_Format img = Format_FORMAT_RAW_RGBA then
        Inr (LazyEncodedImage (pb_Image img) MimeTypeRawRGBA)
      else if pb_Format img = Format_FORMAT_RAW_DEPTH then
        Inr (LazyEncodedImage (pb_Image img) MimeTypeRawDepth)
      else if pb_Format img = Format_FORMAT_JPEG then
        Inr (LazyEncodedImage (pb_Image img) MimeTypeJPEG)
      else if pb_Format img = Format_FORMAT_PNG then
        Inr (LazyEncodedImage (pb_Image img) MimeTypePNG)
      else if pb_Format img = Format_FORMAT_UNSPECIFIED then
        (case decode (pb_Image img) of
           Inl err \<Rightarrow> Inl err
         | Inr px \<Rightarrow> Inr (Decoded px))
      else Inr NilImage)"

text \<open>
  The loop \<^verbatim>\<open>for _, img := range resp.Images\<close> (lines 205 to 223): \<open>images\<close> is the
  slice built so far; the first decoding error leaves the function.
\<close>

fun Images_loop ::
  "(bytes \<Rightarrow> error + 'px) \<Rightarrow> pb_Image list \<Rightarrow> 'px NamedImage list \<Rightarrow> error + 'px NamedImage list"
where
  "Images_loop decode [] images = Inr images"
| "Images_loop decode (img # rest) images =
     (case Images_switch decode img of
        Inl err \<Rightarrow> Inl err
      | Inr rdkImage \<Rightarrow>
          Images_loop decode rest
            (images @ [\<lparr>Image = rdkImage, SourceName = pb_SourceName img\<rparr>]))"

text \<open>
  \<^verbatim>\<open>Images\<close> (lines 192 to 225). \<open>getImages\<close> is what \<^verbatim>\<open>c.client.GetImages\<close> returned;
  \<open>fromProto\<close> is \<^verbatim>\<open>resource.ResponseMetadataFromProto\<close>.
\<close>

definition Images ::
  "(bytes \<Rightarrow> error + 'px) \<Rightarrow> ('md \<Rightarrow> 'rm) \<Rightarrow> error + 'md GetImagesResponse
     \<Rightarrow> error + ('px NamedImage list \<times> 'rm)"
where
  "Images decode fromProto getImages =
     (case getImages of
        Inl err \<Rightarrow> Inl (Wrap err ''camera client: could not gets images from the camera'')
      | Inr resp \<Rightarrow>
          (case Images_loop decode (Images_of resp) [] of
             Inl err \<Rightarrow> Inl err
           | Inr images \<Rightarrow> Inr (images, fromProto (ResponseMetadata resp))))"

subsection \<open>Read\<close>

record 'ex GetImageRequest =
  req_Name :: string
  req_MimeType :: string
  req_Extra :: 'ex

record GetImageResponse =
  resp_MimeType :: string
  resp_Image :: bytes

text \<open>
  One call \<^verbatim>\<open>c.logger.CDebugw(ctx, msg, "sent", sent, "received", received)\<close>.
\<close>

datatype log_entry = CDebugw string string string

text \<open>
  \<^verbatim>\<open>Read\<close> (lines 79 to 111). \<open>mimeType\<close> is \<^verbatim>\<open>gostream.MIMETypeHint(ctx, "")\<close>, the
  caller's hint; \<open>getExtra\<close> is what \<^verbatim>\<open>getExtra(ctx)\<close> returned; \<open>GetImage\<close> is the stub's
  answer to a request. \<^verbatim>\<open>utils.CheckLazyMIMEType\<close>, \<^verbatim>\<open>utils.WithLazyMIMEType\<close> and
  \<^verbatim>\<open>rimage.DecodeImage\<close> live in other packages and are the parameters \<open>checkLazy\<close>,
  \<open>withLazy\<close> and \<open>decodeImage\<close>. The result is the
  image or the error, and the lines the logger received; the release function returned
  beside the image is \<^verbatim>\<open>func() {}\<close> and is left out.
\<close>

definition Read ::
  "(string \<Rightarrow> string \<times> bool) \<Rightarrow> (string \<Rightarrow> string) \<Rightarrow> (bytes \<Rightarrow> string \<Rightarrow> error + 'img)
     \<Rightarrow> string \<Rightarrow> string \<Rightarrow> error + 'ex \<Rightarrow> ('ex GetImageRequest \<Rightarrow> error + GetImageResponse)
     \<Rightarrow> (error + 'img) \<times> log_entry list"
where
  "Read checkLazy withLazy decodeImage name mimeType getExtra GetImage =
     (let expectedType = fst (checkLazy mimeType) in
      case getExtra of
        Inl err \<Rightarrow> (Inl err, [])
      | Inr ext \<Rightarrow>
          (case GetImage \<lparr>req_Name = name, req_MimeType = expectedType, req_Extra = ext\<rparr> of
             Inl err \<Rightarrow> (Inl err, [])
           | Inr resp \<Rightarrow>
               (let logged =
                      (if resp_MimeType resp \<noteq> expectedType
                       then [CDebugw ''got different MIME type than what was asked for''
                               expectedType (resp_MimeType resp)]
                       else []);
                    resp1 =
                      (if resp_MimeType resp \<noteq> expectedType then resp
                       else resp\<lparr>resp_MimeType := mimeType\<rparr>);
                    resp2 = resp1\<lparr>resp_MimeType := withLazy (resp_MimeType resp1)\<rparr>
                in (decodeImage (resp_Image resp2) (resp_MimeType resp2), logged))))"

text \<open>
  Modelled from the spec: \<^verbatim>\<open>utils.WithLazyMIMEType\<close>, \<^verbatim>\<open>utils.CheckLazyMIMEType\<close> and
  \<^verbatim>\<open>rimage.DecodeImage\<close> are not among the source files. The spec speaks of a mimetype
  "optionally qualified lazy" and of a lazy image "carrying only bytes + format tag"; the
  qualifier is taken to be the suffix \<open>+lazy\<close>. \<open>WithLazyMIMEType\<close> appends it,
  \<open>CheckLazyMIMEType\<close> strips it and tells whether it was there, and \<open>DecodeImage\<close>
  answers a lazily qualified type with the lazy wrapper and hands any other type to the
  codec. They serve the concrete instances of the theorems about \<open>Read\<close>, which
  themselves hold for any three functions.
\<close>

definition WithLazyMIMEType :: "string \<Rightarrow> string" where
  "WithLazyMIMEType mimeType = mimeType @ ''+lazy''"

definition CheckLazyMIMEType :: "string \<Rightarrow> string \<times> bool" where
  "CheckLazyMIMEType mimeType =
     (if 5 \<le> length mimeType \<and> drop (length mimeType - 5) mimeType = ''+lazy''
      then (take (length mimeType - 5) mimeType, True)
      else (mimeType, False))"

definition DecodeImage ::
  "(bytes \<Rightarrow> string \<Rightarrow> error + 'px) \<Rightarrow> bytes \<Rightarrow> string \<Rightarrow> error + 'px image"
where
  "DecodeImage codec imgBytes mimeType =
     (case CheckLazyMIMEType mimeType of
        (mt, True) \<Rightarrow> Inr (LazyEncodedImage imgBytes mt)
      | (mt, False) \<Rightarrow>
          (case codec imgBytes mt of Inl err \<Rightarrow> Inl err | Inr px \<Rightarrow> Inr (Decoded px)))"

subsection \<open>Properties and Projector\<close>

text \<open>
  The wire messages of \<^verbatim>\<open>GetProperties\<close>; \<open>'f\<close> stands for \<^verbatim>\<open>float64\<close>, whose
  arithmetic the client never uses. A nil message pointer is \<open>None\<close>.
\<close>

record 'f pb_IntrinsicParameters =
  WidthPx :: int
  HeightPx :: int
  FocalXPx :: 'f
  FocalYPx :: 'f
  CenterXPx :: 'f
  CenterYPx :: 'f

record 'f pb_DistortionParameters =
  Model :: string
  Parameters :: "'f list"

record 'f GetPropertiesResponse =
  IntrinsicParameters :: "'f pb_IntrinsicParameters option"
  DistortionParameters :: "'f pb_DistortionParameters option"
  pb_MimeTypes :: "string list"
  SupportsPcd :: bool

record 'f PinholeCameraIntrinsics =
  Width :: int
  Height :: int
  Fx :: 'f
  Fy :: 'f
  Ppx :: 'f
  Ppy :: 'f

text \<open>
  The fields of \<^verbatim>\<open>Properties\<close> that the client writes; \<open>'d\<close> is a constructed
  \<^verbatim>\<open>transform.Distorter\<close>, \<open>None\<close> the nil interface or nil pointer.
\<close>

record ('f, 'd) Properties =
  SupportsPCD :: bool
  IntrinsicParams :: "'f PinholeCameraIntrinsics option"
  DistortionParams :: "'d option"
  MimeTypes :: "string list"

text \<open>The zero value \<^verbatim>\<open>Properties{}\<close>.\<close>

definition Properties_zero :: "('f, 'd) Properties" where
  "Properties_zero =
     \<lparr>SupportsPCD = False, IntrinsicParams = None, DistortionParams = None, MimeTypes = []\<rparr>"

text \<open>
  \<^verbatim>\<open>Properties\<close> (lines 275 to 310), returning both values of the Go function: the
  \<^verbatim>\<open>Properties\<close> and the error (\<open>None\<close> is nil). \<open>newDistorter\<close> is
  \<^verbatim>\<open>transform.NewDistorter\<close>; \<open>getProperties\<close> is what the stub returned.
\<close>

definition Properties ::
  "(string \<Rightarrow> 'f list \<Rightarrow> error + 'd) \<Rightarrow> error + 'f GetPropertiesResponse
     \<Rightarrow> ('f, 'd) Properties \<times> error option"
where
  "Properties newDistorter getProperties =
     (case getProperties of
        Inl err \<Rightarrow> (Properties_zero, Some err)
      | Inr resp \<Rightarrow>
          (let result0 =
                 (case IntrinsicParameters resp of
                    None \<Rightarrow> Properties_zero
                  | Some intrinsics \<Rightarrow>
                      Properties_zero\<lparr>IntrinsicParams :=
                        Some \<lparr>Width = WidthPx intrinsics, Height = HeightPx intrinsics,
                              Fx = FocalXPx intrinsics, Fy = FocalYPx intrinsics,
                              Ppx = CenterXPx intrinsics, Ppy = CenterYPx intrinsics\<rparr>\<rparr>);
               result = result0\<lparr>MimeTypes := pb_MimeTypes resp, SupportsPCD := SupportsPcd resp\<rparr>
           in case DistortionParameters resp of
                None \<Rightarrow> (result, None)
              | Some dp \<Rightarrow>
                  if Model dp = [] then (result, None)
                  else (case newDistorter (Model dp) (Parameters dp) of
                          Inl err \<Rightarrow> (Properties_zero, Some err)
                        | Inr distorter \<Rightarrow>
                            (result\<lparr>DistortionParams := Some distorter\<rparr>, None))))"

text \<open>
  Modelled from the spec: \<^verbatim>\<open>transform.NewDistorter\<close> is not among the source files. The
  spec: it "resolves the name against a pluggable registry (name to constructor) using the
  supplied parameter list; unknown name or malformed parameters" give an
  unresolved-distortion-model error. The registry maps a model name to its constructor,
  and a constructor refuses the parameter lists it finds malformed.
\<close>

definition NewDistorter ::
  "(string \<rightharpoonup> ('f list \<Rightarrow> error + 'd)) \<Rightarrow> string \<Rightarrow> 'f list \<Rightarrow> error + 'd"
where
  "NewDistorter registry distortionType parameters =
     (case registry distortionType of
        None \<Rightarrow> Inl (''do no know how to parse '' @ distortionType @ '' distortion model'')
      | Some construct \<Rightarrow> construct parameters)"

text \<open>
  \<^verbatim>\<open>Projector\<close> (lines 260 to 273). \<open>checkValid\<close> is the method \<^verbatim>\<open>CheckValid\<close> of
  \<^verbatim>\<open>*transform.PinholeCameraIntrinsics\<close>, called on the pointer as \<^verbatim>\<open>Properties\<close> left it,
  nil included; the projector returned is that pointer.
\<close>

definition Projector ::
  "('f PinholeCameraIntrinsics option \<Rightarrow> error option) \<Rightarrow> (string \<Rightarrow> 'f list \<Rightarrow> error + 'd)
     \<Rightarrow> error + 'f GetPropertiesResponse \<Rightarrow> error + 'f PinholeCameraIntrinsics option"
where
  "Projector checkValid newDistorter getProperties =
     (case Properties newDistorter getProperties of
        (props, Some err) \<Rightarrow> Inl err
      | (props, None) \<Rightarrow>
          (let intrinsics = IntrinsicParams props in
           case checkValid intrinsics of
             Some err \<Rightarrow> Inl err
           | None \<Rightarrow> Inr intrinsics))"

subsection \<open>Stream and Close: the goroutines of one client\<close>

text \<open>
  \<^verbatim>\<open>Stream\<close> and \<^verbatim>\<open>Close\<close> share the mutex \<^verbatim>\<open>mu\<close>, the channel \<^verbatim>\<open>healthyClientCh\<close> and
  the wait group \<^verbatim>\<open>activeBackgroundWorkers\<close>, and \<^verbatim>\<open>Stream\<close> starts a goroutine. The
  model is an interleaving of atomic statements: every call is a goroutine with a
  program counter, every \<^verbatim>\<open>Stream\<close> call has one worker, and a schedule (a list of
  actions) says who moves next and what the environment answers. A call is named by a
  number; the worker and the stream of a \<^verbatim>\<open>Stream\<close> call carry the call's number. A
  channel made by \<^verbatim>\<open>make(chan struct{})\<close> is named by the number of channels made before
  it.
\<close>

type_synonym tid = nat
type_synonym chan = nat

text \<open>
  Where a caller stands. In \<^verbatim>\<open>Stream\<close>: before \<^verbatim>\<open>c.mu.Lock()\<close> (line 141); inside the
  lock before lines 142 to 145; before \<^verbatim>\<open>c.mu.Unlock()\<close> (line 146) holding the captured
  \<^verbatim>\<open>healthyClientCh\<close> (\<open>None\<close> is a nil channel); before lines 148 to 151, which end in
  \<^verbatim>\<open>c.activeBackgroundWorkers.Add(1)\<close>; before \<^verbatim>\<open>goutils.PanicCapturingGo\<close> (line 153);
  returned (line 189). In \<^verbatim>\<open>Close\<close>: before \<^verbatim>\<open>c.mu.Lock()\<close> (line 321); before lines 324
  to 326; before \<^verbatim>\<open>Wait()\<close> (line 327); before line 328; before the deferred
  \<^verbatim>\<open>c.mu.Unlock()\<close>; returned.
\<close>

datatype caller_pc =
    Idle
  | Stream_Lock
  | Stream_Critical
  | Stream_Unlock "chan option"
  | Stream_Add "chan option"
  | Stream_Go "chan option"
  | Stream_Returned
  | Close_Lock
  | Close_Signal
  | Close_Wait
  | Close_Nil
  | Close_Unlock
  | Close_Returned

text \<open>
  What a worker sends on \<^verbatim>\<open>frameCh\<close>: \<^verbatim>\<open>MediaReleasePairWithError{Media, Release, Err}\<close>
  with the frame and the error of one \<^verbatim>\<open>Read\<close> (\<open>None\<close> is nil).
\<close>

record 'fr pair =
  Media :: "'fr option"
  Err :: "error option"

text \<open>
  Where a worker stands: not started; at the top of the loop (line 161); inside
  \<^verbatim>\<open>c.Read\<close> (line 165); before the error handlers (lines 166 to 170) with what
  \<^verbatim>\<open>Read\<close> returned; at the \<^verbatim>\<open>select\<close> (line 172) with the pair to send; before
  \<^verbatim>\<open>stream.Close\<close> (line 176); before the deferred \<^verbatim>\<open>close(frameCh)\<close> (line 158); before
  the deferred \<^verbatim>\<open>Done()\<close> (line 157); finished.
\<close>

datatype 'fr worker_pc =
    Not_Started
  | Loop "chan option"
  | Reading "chan option"
  | Handling "chan option" "error + 'fr"
  | Select "chan option" "'fr pair"
  | Stream_Close
  | Defer_close_frameCh
  | Defer_Done
  | Exited

text \<open>
  The client and its goroutines. \<open>mu\<close> is the holder of the mutex; \<open>closed\<close> the
  signal channels that have been closed; \<open>made\<close> the number of signal channels made;
  \<open>activeBackgroundWorkers\<close> the counter of the wait group; \<open>panicked\<close> is set by a
  \<^verbatim>\<open>close\<close> of a closed channel and by a negative wait-group counter. Per stream:
  \<open>errHandlers\<close> as passed to \<^verbatim>\<open>Stream\<close> (handlers are named by numbers),
  \<open>streamCtx_done\<close> (the context of \<^verbatim>\<open>NewMediaStreamForChannel\<close> is cancelled),
  \<open>frameCh_closed\<close>, and \<open>received\<close>, the pairs the consumer has received on
  \<^verbatim>\<open>frameCh\<close>, oldest first. \<open>handled\<close> lists the handler calls made so far: stream,
  handler, error.
\<close>

record 'fr client =
  mu :: "tid option"
  healthyClientCh :: "chan option"
  closed :: "chan set"
  made :: nat
  activeBackgroundWorkers :: int
  panicked :: bool
  caller :: "tid \<Rightarrow> caller_pc"
  worker :: "tid \<Rightarrow> 'fr worker_pc"
  errHandlers :: "tid \<Rightarrow> nat list"
  streamCtx_done :: "tid \<Rightarrow> bool"
  frameCh_closed :: "tid \<Rightarrow> bool"
  received :: "tid \<Rightarrow> 'fr pair list"
  handled :: "(tid \<times> nat \<times> error) list"

text \<open>The client as \<^verbatim>\<open>NewClientFromConn\<close> returns it (lines 52 to 58), nobody running.\<close>

definition NewClientFromConn :: "'fr client" where
  "NewClientFromConn =
     \<lparr>mu = None, healthyClientCh = None, closed = {}, made = 0,
      activeBackgroundWorkers = 0, panicked = False,
      caller = (\<lambda>t. Idle), worker = (\<lambda>t. Not_Started), errHandlers = (\<lambda>t. []),
      streamCtx_done = (\<lambda>t. False), frameCh_closed = (\<lambda>t. False),
      received = (\<lambda>t. []), handled = []\<rparr>"

text \<open>
  A receive from a signal channel is ready when the channel has been closed; a nil channel
  is never ready.
\<close>

definition signalled :: "'fr client \<Rightarrow> chan option \<Rightarrow> bool" where
  "signalled s ch = (case ch of None \<Rightarrow> False | Some k \<Rightarrow> k \<in> closed s)"

text \<open>
  The next statement of caller \<open>t\<close>; \<open>None\<close> when it blocks (\<^verbatim>\<open>Lock\<close> on a held mutex,
  \<^verbatim>\<open>Wait\<close> on a positive counter) or has nothing to run.
\<close>

definition caller_step :: "tid \<Rightarrow> 'fr client \<Rightarrow> 'fr client option" where
  "caller_step t s =
     (case caller s t of
        Idle \<Rightarrow> None
      | Stream_Lock \<Rightarrow>
          (if mu s = None
           then Some (s\<lparr>mu := Some t, caller := (caller s)(t := Stream_Critical)\<rparr>)
           else None)
      | Stream_Critical \<Rightarrow>
          (case healthyClientCh s of
             None \<Rightarrow>
               Some (s\<lparr>healthyClientCh := Some (made s), made := Suc (made s),
                       caller := (caller s)(t := Stream_Unlock (Some (made s)))\<rparr>)
           | Some k \<Rightarrow>
               Some (s\<lparr>caller := (caller s)(t := Stream_Unlock (Some k))\<rparr>))
      | Stream_Unlock ch \<Rightarrow>
          Some (s\<lparr>mu := None, caller := (caller s)(t := Stream_Add ch)\<rparr>)
      | Stream_Add ch \<Rightarrow>
          Some (s\<lparr>activeBackgroundWorkers := activeBackgroundWorkers s + 1,
                  caller := (caller s)(t := Stream_Go ch)\<rparr>)
      | Stream_Go ch \<Rightarrow>
          Some (s\<lparr>worker := (worker s)(t := Loop ch),
                  caller := (caller s)(t := Stream_Returned)\<rparr>)
      | Stream_Returned \<Rightarrow> None
      | Close_Lock \<Rightarrow>
          (if mu s = None
           then Some (s\<lparr>mu := Some t, caller := (caller s)(t := Close_Signal)\<rparr>)
           else None)
      | Close_Signal \<Rightarrow>
          (case healthyClientCh s of
             None \<Rightarrow> Some (s\<lparr>caller := (caller s)(t := Close_Wait)\<rparr>)
           | Some k \<Rightarrow>
               if k \<in> closed s then Some (s\<lparr>panicked := True\<rparr>)
               else Some (s\<lparr>closed := insert k (closed s),
                             caller := (caller s)(t := Close_Wait)\<rparr>))
      | Close_Wait \<Rightarrow>
          (if activeBackgroundWorkers s = 0
           then Some (s\<lparr>caller := (caller s)(t := Close_Nil)\<rparr>)
           else None)
      | Close_Nil \<Rightarrow>
          Some (s\<lparr>healthyClientCh := None, caller := (caller s)(t := Close_Unlock)\<rparr>)
      | Close_Unlock \<Rightarrow>
          Some (s\<lparr>mu := None, caller := (caller s)(t := Close_Returned)\<rparr>)
      | Close_Returned \<Rightarrow> None)"

text \<open>
  The next statement of worker \<open>t\<close> where it neither waits for \<^verbatim>\<open>Read\<close> nor selects.
\<close>

definition worker_step :: "tid \<Rightarrow> 'fr client \<Rightarrow> 'fr client option" where
  "worker_step t s =
     (case worker s t of
        Loop ch \<Rightarrow>
          (if streamCtx_done s t
           then Some (s\<lparr>worker := (worker s)(t := Defer_close_frameCh)\<rparr>)
           else Some (s\<lparr>worker := (worker s)(t := Reading ch)\<rparr>))
      | Handling ch r \<Rightarrow>
          (case r of
             Inl err \<Rightarrow>
               Some (s\<lparr>handled := handled s @ map (\<lambda>handler. (t, handler, err)) (errHandlers s t),
                       worker := (worker s)(t := Select ch \<lparr>Media = None, Err = Some err\<rparr>)\<rparr>)
           | Inr frame \<Rightarrow>
               Some (s\<lparr>worker := (worker s)(t := Select ch \<lparr>Media = Some frame, Err = None\<rparr>)\<rparr>))
      | Stream_Close \<Rightarrow>
          Some (s\<lparr>streamCtx_done := (streamCtx_done s)(t := True),
                  worker := (worker s)(t := Defer_close_frameCh)\<rparr>)
      | Defer_close_frameCh \<Rightarrow>
          (if frameCh_closed s t then Some (s\<lparr>panicked := True\<rparr>)
           else Some (s\<lparr>frameCh_closed := (frameCh_closed s)(t := True),
                         worker := (worker s)(t := Defer_Done)\<rparr>))
      | Defer_Done \<Rightarrow>
          (if activeBackgroundWorkers s - 1 < 0 then Some (s\<lparr>panicked := True\<rparr>)
           else Some (s\<lparr>activeBackgroundWorkers := activeBackgroundWorkers s - 1,
                         worker := (worker s)(t := Exited)\<rparr>))
      | _ \<Rightarrow> None)"

text \<open>
  A schedule is a list of actions: a goroutine calls \<^verbatim>\<open>Stream\<close> with its handlers or
  \<^verbatim>\<open>Close\<close>; a caller or a worker runs its next statement; \<^verbatim>\<open>c.Read\<close> returns to a
  worker; the \<^verbatim>\<open>select\<close> of a worker takes one of its three cases (Go picks any case that
  is ready); the consumer of a stream calls \<^verbatim>\<open>stream.Close\<close>, which cancels the stream's
  context.
\<close>

datatype 'fr action =
    Call_Stream tid "nat list"
  | Call_Close tid
  | Caller tid
  | Worker tid
  | Read_Returns tid "error + 'fr"
  | Select_Done tid
  | Select_Healthy tid
  | Select_Send tid
  | Consumer_Close tid

text \<open>
  One action; \<open>None\<close> when the action is not enabled. Nothing runs after a panic. The send
  case of the \<^verbatim>\<open>select\<close> is taken together with the consumer's receive.
\<close>

definition step :: "'fr action \<Rightarrow> 'fr client \<Rightarrow> 'fr client option" where
  "step a s =
     (if panicked s then None
      else case a of
        Call_Stream t hs \<Rightarrow>
          (if caller s t = Idle
           then Some (s\<lparr>caller := (caller s)(t := Stream_Lock),
                         errHandlers := (errHandlers s)(t := hs)\<rparr>)
           else None)
      | Call_Close t \<Rightarrow>
          (if caller s t = Idle
           then Some (s\<lparr>caller := (caller s)(t := Close_Lock)\<rparr>)
           else None)
      | Caller t \<Rightarrow> caller_step t s
      | Worker t \<Rightarrow> worker_step t s
      | Read_Returns t r \<Rightarrow>
          (case worker s t of
             Reading ch \<Rightarrow> Some (s\<lparr>worker := (worker s)(t := Handling ch r)\<rparr>)
           | _ \<Rightarrow> None)
      | Select_Done t \<Rightarrow>
          (case worker s t of
             Select ch p \<Rightarrow>
               (if streamCtx_done s t
                then Some (s\<lparr>worker := (worker s)(t := Defer_close_frameCh)\<rparr>)
                else None)
           | _ \<Rightarrow> None)
      | Select_Healthy t \<Rightarrow>
          (case worker s t of
             Select ch p \<Rightarrow>
               (if signalled s ch
                then Some (s\<lparr>worker := (worker s)(t := Stream_Close)\<rparr>)
                else None)
           | _ \<Rightarrow> None)
      | Select_Send t \<Rightarrow>
          (case worker s t of
             Select ch p \<Rightarrow>
               Some (s\<lparr>received := (received s)(t := received s t @ [p]),
                       worker := (worker s)(t := Loop ch)\<rparr>)
           | _ \<Rightarrow> None)
      | Consumer_Close t \<Rightarrow>
          (if caller s t = Stream_Returned
           then Some (s\<lparr>streamCtx_done := (streamCtx_done s)(t := True)\<rparr>)
           else None))"

text \<open>A schedule from a state; \<open>None\<close> when one of its actions is not enabled.\<close>

fun run :: "'fr action list \<Rightarrow> 'fr client \<Rightarrow> 'fr client option" where
  "run [] s = Some s"
| "run (a # as) s = (case step a s of None \<Rightarrow> None | Some s' \<Rightarrow> run as s')"

subsection \<open>Invariants of the interleaving\<close>

text \<open>
  The program points between a \<^verbatim>\<open>Lock\<close> and its \<^verbatim>\<open>Unlock\<close>.
\<close>

fun holds_mu :: "caller_pc \<Rightarrow> bool" where
  "holds_mu Stream_Critical = True"
| "holds_mu (Stream_Unlock ch) = True"
| "holds_mu Close_Signal = True"
| "holds_mu Close_Wait = True"
| "holds_mu Close_Nil = True"
| "holds_mu Close_Unlock = True"
| "holds_mu pc = False"

text \<open>
  The mutex is held by exactly the caller that stands between \<^verbatim>\<open>Lock\<close> and \<^verbatim>\<open>Unlock\<close>.
\<close>

definition inv_mu :: "'fr client \<Rightarrow> bool" where
  "inv_mu s = (\<forall>t. holds_mu (caller s t) = (mu s = Some t))"

text \<open>
  The program points inside the lock at which \<^verbatim>\<open>healthyClientCh\<close> is not a closed channel:
  all of them but the two of \<^verbatim>\<open>Close\<close> between its \<^verbatim>\<open>close\<close> and its assignment of nil.
\<close>

fun sees_open :: "caller_pc \<Rightarrow> bool" where
  "sees_open Stream_Critical = True"
| "sees_open (Stream_Unlock ch) = True"
| "sees_open Close_Signal = True"
| "sees_open Close_Unlock = True"
| "sees_open pc = False"

text \<open>
  The signal channel: channels are numbered below \<open>made\<close>; \<^verbatim>\<open>healthyClientCh\<close> is nil or
  open whenever the mutex is free or its holder stands at such a point; a \<^verbatim>\<open>Stream\<close> about to
  unlock has captured the current, non-nil channel; a \<^verbatim>\<open>Close\<close> about to unlock has left nil.
\<close>

definition inv_signal :: "'fr client \<Rightarrow> bool" where
  "inv_signal s =
     ((\<forall>k. healthyClientCh s = Some k \<longrightarrow> k < made s) \<and>
      (\<forall>k. k \<in> closed s \<longrightarrow> k < made s) \<and>
      (\<forall>k. mu s = None \<longrightarrow> healthyClientCh s = Some k \<longrightarrow> k \<notin> closed s) \<and>
      (\<forall>t k. sees_open (caller s t) \<longrightarrow> healthyClientCh s = Some k \<longrightarrow> k \<notin> closed s) \<and>
      (\<forall>t ch. caller s t = Stream_Unlock ch \<longrightarrow> ch = healthyClientCh s \<and> ch \<noteq> None) \<and>
      (\<forall>t. caller s t = Close_Unlock \<longrightarrow> healthyClientCh s = None))"

text \<open>
  A worker exists exactly when its \<^verbatim>\<open>Stream\<close> call has returned.
\<close>

fun worker_ok :: "caller_pc \<Rightarrow> 'fr worker_pc \<Rightarrow> bool" where
  "worker_ok Stream_Returned w = (w \<noteq> Not_Started)"
| "worker_ok pc w = (w = Not_Started)"

text \<open>
  \<^verbatim>\<open>frameCh\<close> is closed exactly when the worker has run its deferred \<^verbatim>\<open>close(frameCh)\<close>.
\<close>

fun frame_ok :: "'fr worker_pc \<Rightarrow> bool \<Rightarrow> bool" where
  "frame_ok Defer_Done b = b"
| "frame_ok Exited b = b"
| "frame_ok w b = (\<not> b)"

text \<open>
  Both, for every stream.
\<close>

definition inv_worker :: "'fr client \<Rightarrow> bool" where
  "inv_worker s =
     (\<forall>t. worker_ok (caller s t) (worker s t) \<and> frame_ok (worker s t) (frameCh_closed s t))"

text \<open>
  The streams the wait group counts: \<^verbatim>\<open>Add(1)\<close> has run and the worker's \<^verbatim>\<open>Done()\<close> has not.
\<close>

fun counted_pc :: "caller_pc \<Rightarrow> 'fr worker_pc \<Rightarrow> bool" where
  "counted_pc (Stream_Go ch) w = True"
| "counted_pc Stream_Returned w = (w \<noteq> Exited)"
| "counted_pc pc w = False"

definition counted :: "'fr client \<Rightarrow> tid \<Rightarrow> bool" where
  "counted s t = counted_pc (caller s t) (worker s t)"

text \<open>
  The counter of the wait group is the number of such streams.
\<close>

definition inv_wg :: "'fr client \<Rightarrow> bool" where
  "inv_wg s = (finite {t. counted s t} \<and> activeBackgroundWorkers s = int (card {t. counted s t}))"

text \<open>
  The invariant of every reachable state.
\<close>

definition inv :: "'fr client \<Rightarrow> bool" where
  "inv s = (\<not> panicked s \<and> inv_mu s \<and> inv_signal s \<and> inv_worker s \<and> inv_wg s)"




section \<open>Images: dispatch on the format tag\<close>

lemmas Format_defs = Format_FORMAT_UNSPECIFIED_def Format_FORMAT_RAW_RGBA_def
  Format_FORMAT_RAW_DEPTH_def Format_FORMAT_JPEG_def Format_FORMAT_PNG_def





text \<open>
  C4. The switch has no \<^verbatim>\<open>default\<close>: for a response whose one image carries the tag 5,
  outside the five constants, \<open>Images\<close> returns no error but a named image whose image is
  nil, whatever the decoder.
\<close>

theorem Images_unknown_format_nil_image:
  "Images decode fromProto
     (Inr \<lparr>Images_of = [\<lparr>pb_SourceName = ''cam'', pb_Format = 5, pb_Image = [1, 2, 3]\<rparr>],
           ResponseMetadata = md\<rparr>)
   = Inr ([\<lparr>Image = NilImage, SourceName = ''cam''\<rparr>], fromProto md)"
  by (simp add: Images_def Images_switch_def Format_defs)

section \<open>Read: the MIME type returned by the server\<close>

text \<open>
  C5, as the code has it. When the server's MIME type differs from the one requested,
  \<open>Read\<close> logs the two types and returns whatever \<^verbatim>\<open>rimage.DecodeImage\<close> makes of
  the bytes under the server's type with the lazy qualifier added; the caller's own
  qualifier does not enter the result, and the only error is the decoder's.
\<close>

theorem Read_mismatch_decodes_lazily:
  assumes "getExtra = Inr ext"
    and "GetImage \<lparr>req_Name = name, req_MimeType = fst (checkLazy mimeType), req_Extra = ext\<rparr> = Inr resp"
    and "resp_MimeType resp \<noteq> fst (checkLazy mimeType)"
  shows "Read checkLazy withLazy decodeImage name mimeType getExtra GetImage =
           (decodeImage (resp_Image resp) (withLazy (resp_MimeType resp)),
            [CDebugw ''got different MIME type than what was asked for''
               (fst (checkLazy mimeType)) (resp_MimeType resp)])"
  using assms by (simp add: Read_def Let_def)

theorem Read_mismatch_decodes_lazily_witness:
  "Read CheckLazyMIMEType WithLazyMIMEType (DecodeImage (\<lambda>b m. Inr (length b))) ''cam'' ''image/jpeg''
      (Inr (0::nat)) (\<lambda>req. Inr \<lparr>resp_MimeType = ''image/png'', resp_Image = [137, 80]\<rparr>)
   = (Inr (LazyEncodedImage [137, 80] ''image/png''),
      [CDebugw ''got different MIME type than what was asked for'' ''image/jpeg'' ''image/png''])"
  using Read_mismatch_decodes_lazily [of "Inr (0::nat)" 0
      "\<lambda>req. Inr \<lparr>resp_MimeType = ''image/png'', resp_Image = [137, 80]\<rparr>" "''cam''"
      CheckLazyMIMEType "''image/jpeg''" "\<lparr>resp_MimeType = ''image/png'', resp_Image = [137, 80]\<rparr>"
      WithLazyMIMEType "DecodeImage (\<lambda>b m. Inr (length b))"]
  by (simp add: CheckLazyMIMEType_def WithLazyMIMEType_def DecodeImage_def)

text \<open>
  C5 as stated fails: the caller asks for \<open>image/jpeg\<close> without the lazy qualifier, the
  server answers \<open>image/png\<close>, and \<open>Read\<close> returns a lazily encoded image.
\<close>

theorem Read_eager_request_counterexample:
  "snd (CheckLazyMIMEType ''image/jpeg'') = False \<and>
   fst (Read CheckLazyMIMEType WithLazyMIMEType (DecodeImage (\<lambda>b m. Inr (length b))) ''cam'' ''image/jpeg''
      (Inr (0::nat)) (\<lambda>req. Inr \<lparr>resp_MimeType = ''image/png'', resp_Image = [137, 80]\<rparr>))
   = Inr (LazyEncodedImage [137, 80] ''image/png'')"
  by (simp add: Read_def CheckLazyMIMEType_def WithLazyMIMEType_def DecodeImage_def)

section \<open>Properties and Projector\<close>

text \<open>
  C8. With no distortion descriptor, or one whose model name is empty, \<open>Properties\<close>
  returns no error and no distortion. With a non-empty name it returns an error exactly
  when the registry does not know the name or the constructor refuses the parameters, and
  otherwise the distortion the constructor built from the parameters.
\<close>

theorem Properties_distortion:
  "(DistortionParameters resp = None \<or>
      (\<exists>dp. DistortionParameters resp = Some dp \<and> Model dp = []) \<longrightarrow>
        snd (Properties (NewDistorter registry) (Inr resp)) = None \<and>
        DistortionParams (fst (Properties (NewDistorter registry) (Inr resp))) = None)
   \<and> (\<forall>dp. DistortionParameters resp = Some dp \<and> Model dp \<noteq> [] \<longrightarrow>
        (snd (Properties (NewDistorter registry) (Inr resp)) \<noteq> None \<longleftrightarrow>
           registry (Model dp) = None \<or>
           (\<exists>construct. registry (Model dp) = Some construct \<and> isl (construct (Parameters dp)))) \<and>
        (\<forall>construct d. registry (Model dp) = Some construct \<and> construct (Parameters dp) = Inr d \<longrightarrow>
           snd (Properties (NewDistorter registry) (Inr resp)) = None \<and>
           DistortionParams (fst (Properties (NewDistorter registry) (Inr resp))) = Some d))"
  by (auto simp: Properties_def NewDistorter_def Let_def Properties_zero_def split: sum.splits option.splits if_splits)

theorem Properties_distortion_witness:
  "snd (Properties (NewDistorter [''brown_conrady'' \<mapsto> (\<lambda>ps. if length ps \<le> 5 then Inr ps else Inl ''too many'')])
          (Inr \<lparr>IntrinsicParameters = None,
                DistortionParameters = Some \<lparr>Model = ''brown_conrady'', Parameters = [1, 2::int]\<rparr>,
                pb_MimeTypes = [], SupportsPcd = False\<rparr>)) = None
   \<and> DistortionParams (fst (Properties (NewDistorter [''brown_conrady'' \<mapsto> (\<lambda>ps. if length ps \<le> 5 then Inr ps else Inl ''too many'')])
          (Inr \<lparr>IntrinsicParameters = None,
                DistortionParameters = Some \<lparr>Model = ''brown_conrady'', Parameters = [1, 2::int]\<rparr>,
                pb_MimeTypes = [], SupportsPcd = False\<rparr>))) = Some [1, 2]
   \<and> snd (Properties (NewDistorter [''brown_conrady'' \<mapsto> (\<lambda>ps. if length ps \<le> 5 then Inr ps else Inl ''too many'')])
          (Inr \<lparr>IntrinsicParameters = None,
                DistortionParameters = Some \<lparr>Model = ''fisheye'', Parameters = [1, 2::int]\<rparr>,
                pb_MimeTypes = [], SupportsPcd = False\<rparr>)) \<noteq> None"
proof -
  let ?reg = "[''brown_conrady'' \<mapsto> (\<lambda>ps::int list. if length ps \<le> 5 then Inr ps else (Inl ''too many'' :: error + int list))]"
  let ?ok = "\<lparr>IntrinsicParameters = None,
                DistortionParameters = Some \<lparr>Model = ''brown_conrady'', Parameters = [1, 2::int]\<rparr>,
                pb_MimeTypes = [], SupportsPcd = False\<rparr>"
  let ?bad = "\<lparr>IntrinsicParameters = None,
                DistortionParameters = Some \<lparr>Model = ''fisheye'', Parameters = [1, 2::int]\<rparr>,
                pb_MimeTypes = [], SupportsPcd = False\<rparr>"
  from Properties_distortion [where resp = ?ok and registry = ?reg]
  have "snd (Properties (NewDistorter ?reg) (Inr ?ok)) = None \<and>
        DistortionParams (fst (Properties (NewDistorter ?reg) (Inr ?ok))) = Some [1, 2]"
    by simp
  moreover from Properties_distortion [where resp = ?bad and registry = ?reg]
  have "snd (Properties (NewDistorter ?reg) (Inr ?bad)) \<noteq> None"
    by simp
  ultimately show ?thesis by simp
qed

text \<open>
  C9. The error of \<open>Properties\<close> does not depend on the intrinsic parameters of the
  response, present or absent, valid or not. \<open>Projector\<close> returns the error of
  \<open>Properties\<close> if there is one; otherwise it asks \<^verbatim>\<open>CheckValid\<close> about the intrinsics
  as \<open>Properties\<close> left them and returns its error instead of a projector.
\<close>

theorem Projector_checks_intrinsics_late:
  "snd (Properties newDistorter (Inr (resp\<lparr>IntrinsicParameters := ip\<rparr>)))
     = snd (Properties newDistorter (Inr resp))
   \<and> (Properties newDistorter getProperties = (props, None) \<longrightarrow>
        Projector checkValid newDistorter getProperties =
          (case checkValid (IntrinsicParams props) of
             Some err \<Rightarrow> Inl err | None \<Rightarrow> Inr (IntrinsicParams props)))
   \<and> (\<forall>err. Properties newDistorter getProperties = (props, Some err) \<longrightarrow>
        Projector checkValid newDistorter getProperties = Inl err)"
  by (auto simp: Properties_def Projector_def Let_def split: sum.splits option.splits if_splits)

theorem Projector_checks_intrinsics_late_witness:
  "snd (Properties (\<lambda>m ps. Inr (0::nat))
          (Inr \<lparr>IntrinsicParameters = Some \<lparr>WidthPx = 0, HeightPx = 0, FocalXPx = 0::int,
                   FocalYPx = 0, CenterXPx = 0, CenterYPx = 0\<rparr>,
                DistortionParameters = None, pb_MimeTypes = [], SupportsPcd = False\<rparr>)) = None
   \<and> Projector (\<lambda>ip. case ip of None \<Rightarrow> Some ''nil intrinsics''
                      | Some i \<Rightarrow> if Width i \<le> 0 then Some ''invalid size'' else None)
        (\<lambda>m ps. Inr (0::nat))
        (Inr \<lparr>IntrinsicParameters = Some \<lparr>WidthPx = 0, HeightPx = 0, FocalXPx = 0::int,
                   FocalYPx = 0, CenterXPx = 0, CenterYPx = 0\<rparr>,
                DistortionParameters = None, pb_MimeTypes = [], SupportsPcd = False\<rparr>)
      = Inl ''invalid size''"
proof -
  let ?nd = "\<lambda>(m::string) (ps::int list). (Inr (0::nat) :: error + nat)"
  let ?cv = "\<lambda>ip::int PinholeCameraIntrinsics option. case ip of None \<Rightarrow> Some ''nil intrinsics''
                      | Some i \<Rightarrow> if Width i \<le> 0 then Some ''invalid size'' else None"
  let ?resp = "\<lparr>IntrinsicParameters = Some \<lparr>WidthPx = 0, HeightPx = 0, FocalXPx = 0::int,
                   FocalYPx = 0, CenterXPx = 0, CenterYPx = 0\<rparr>,
                DistortionParameters = None, pb_MimeTypes = [], SupportsPcd = False\<rparr>"
  have p: "Properties ?nd (Inr ?resp) = (fst (Properties ?nd (Inr ?resp)), None)"
    by (simp add: Properties_def)
  from Projector_checks_intrinsics_late [where newDistorter = ?nd and resp = ?resp and ip = None
      and getProperties = "Inr ?resp" and props = "fst (Properties ?nd (Inr ?resp))"
      and checkValid = ?cv] p
  show ?thesis by (simp add: Properties_def Properties_zero_def)
qed

text \<open>
  C10. Whenever \<open>Properties\<close> returns an error, the value returned with it is the zero
  \<open>Properties\<close>, also when the error comes from the distortion model after the other
  fields were filled in.
\<close>

theorem Properties_error_is_zero:
  assumes "snd (Properties newDistorter getProperties) \<noteq> None"
  shows "fst (Properties newDistorter getProperties) = Properties_zero"
  using assms
  by (auto simp: Properties_def Let_def split: sum.splits option.splits if_splits)

theorem Properties_error_is_zero_witness:
  "snd (Properties (\<lambda>m ps. (Inl ''unknown model'' :: error + nat))
          (Inr \<lparr>IntrinsicParameters = Some \<lparr>WidthPx = 640, HeightPx = 480, FocalXPx = 1::int,
                   FocalYPx = 1, CenterXPx = 2, CenterYPx = 2\<rparr>,
                DistortionParameters = Some \<lparr>Model = ''fisheye'', Parameters = []\<rparr>,
                pb_MimeTypes = [''image/jpeg''], SupportsPcd = True\<rparr>)) \<noteq> None
   \<and> fst (Properties (\<lambda>m ps. (Inl ''unknown model'' :: error + nat))
          (Inr \<lparr>IntrinsicParameters = Some \<lparr>WidthPx = 640, HeightPx = 480, FocalXPx = 1::int,
                   FocalYPx = 1, CenterXPx = 2, CenterYPx = 2\<rparr>,
                DistortionParameters = Some \<lparr>Model = ''fisheye'', Parameters = []\<rparr>,
                pb_MimeTypes = [''image/jpeg''], SupportsPcd = True\<rparr>)) = Properties_zero"
proof -
  let ?nd = "\<lambda>(m::string) (ps::int list). (Inl ''unknown model'' :: error + nat)"
  let ?resp = "\<lparr>IntrinsicParameters = Some \<lparr>WidthPx = 640, HeightPx = 480, FocalXPx = 1::int,
                   FocalYPx = 1, CenterXPx = 2, CenterYPx = 2\<rparr>,
                DistortionParameters = Some \<lparr>Model = ''fisheye'', Parameters = []\<rparr>,
                pb_MimeTypes = [''image/jpeg''], SupportsPcd = True\<rparr>"
  have e: "snd (Properties ?nd (Inr ?resp)) \<noteq> None"
    by (simp add: Properties_def)
  from Properties_error_is_zero [OF e] e show ?thesis by simp
qed

section \<open>Stream and Close: what every interleaving preserves\<close>

text \<open>
  The steps as elimination rules: one case per statement, with the state it leaves.
\<close>

lemma caller_stepE [consumes 1, case_names Stream_Lock Stream_Make Stream_Reuse Stream_Unlock
    Stream_Add Stream_Go Close_Lock Close_No_Signal Close_Panic Close_Signal Close_Wait
    Close_Nil Close_Unlock]:
  assumes "caller_step t s = Some s'"
  obtains
    "caller s t = Stream_Lock" "mu s = None"
      "s' = s\<lparr>mu := Some t, caller := (caller s)(t := Stream_Critical)\<rparr>"
  | "caller s t = Stream_Critical" "healthyClientCh s = None"
      "s' = s\<lparr>healthyClientCh := Some (made s), made := Suc (made s),
              caller := (caller s)(t := Stream_Unlock (Some (made s)))\<rparr>"
  | k where "caller s t = Stream_Critical" "healthyClientCh s = Some k"
      "s' = s\<lparr>caller := (caller s)(t := Stream_Unlock (Some k))\<rparr>"
  | ch where "caller s t = Stream_Unlock ch"
      "s' = s\<lparr>mu := None, caller := (caller s)(t := Stream_Add ch)\<rparr>"
  | ch where "caller s t = Stream_Add ch"
      "s' = s\<lparr>activeBackgroundWorkers := activeBackgroundWorkers s + 1,
              caller := (caller s)(t := Stream_Go ch)\<rparr>"
  | ch where "caller s t = Stream_Go ch"
      "s' = s\<lparr>worker := (worker s)(t := Loop ch), caller := (caller s)(t := Stream_Returned)\<rparr>"
  | "caller s t = Close_Lock" "mu s = None"
      "s' = s\<lparr>mu := Some t, caller := (caller s)(t := Close_Signal)\<rparr>"
  | "caller s t = Close_Signal" "healthyClientCh s = None"
      "s' = s\<lparr>caller := (caller s)(t := Close_Wait)\<rparr>"
  | k where "caller s t = Close_Signal" "healthyClientCh s = Some k" "k \<in> closed s"
      "s' = s\<lparr>panicked := True\<rparr>"
  | k where "caller s t = Close_Signal" "healthyClientCh s = Some k" "k \<notin> closed s"
      "s' = s\<lparr>closed := insert k (closed s), caller := (caller s)(t := Close_Wait)\<rparr>"
  | "caller s t = Close_Wait" "activeBackgroundWorkers s = 0"
      "s' = s\<lparr>caller := (caller s)(t := Close_Nil)\<rparr>"
  | "caller s t = Close_Nil"
      "s' = s\<lparr>healthyClientCh := None, caller := (caller s)(t := Close_Unlock)\<rparr>"
  | "caller s t = Close_Unlock"
      "s' = s\<lparr>mu := None, caller := (caller s)(t := Close_Returned)\<rparr>"
proof (cases "caller s t")
  case Idle with assms show ?thesis by (simp add: caller_step_def)
next
  case Stream_Lock with assms that(1) show ?thesis
    by (simp add: caller_step_def split: if_splits)
next
  case Stream_Critical with assms that(2,3) show ?thesis
    by (cases "healthyClientCh s") (simp_all add: caller_step_def)
next
  case (Stream_Unlock ch) with assms that(4) show ?thesis by (simp add: caller_step_def)
next
  case (Stream_Add ch) with assms that(5) show ?thesis by (simp add: caller_step_def)
next
  case (Stream_Go ch) with assms that(6) show ?thesis by (simp add: caller_step_def)
next
  case Stream_Returned with assms show ?thesis by (simp add: caller_step_def)
next
  case Close_Lock with assms that(7) show ?thesis
    by (simp add: caller_step_def split: if_splits)
next
  case Close_Signal with assms that(8,9,10) show ?thesis
    by (cases "healthyClientCh s") (simp_all add: caller_step_def split: if_splits)
next
  case Close_Wait with assms that(11) show ?thesis
    by (simp add: caller_step_def split: if_splits)
next
  case Close_Nil with assms that(12) show ?thesis by (simp add: caller_step_def)
next
  case Close_Unlock with assms that(13) show ?thesis by (simp add: caller_step_def)
next
  case Close_Returned with assms show ?thesis by (simp add: caller_step_def)
qed

lemma worker_stepE [consumes 1, case_names Loop_Done Loop_Read Handle_Error Handle_Frame
    Stream_Close Frame_Panic Frame_Close Done_Panic Done]:
  assumes "worker_step t s = Some s'"
  obtains
    ch where "worker s t = Loop ch" "streamCtx_done s t"
      "s' = s\<lparr>worker := (worker s)(t := Defer_close_frameCh)\<rparr>"
  | ch where "worker s t = Loop ch" "\<not> streamCtx_done s t"
      "s' = s\<lparr>worker := (worker s)(t := Reading ch)\<rparr>"
  | ch err where "worker s t = Handling ch (Inl err)"
      "s' = s\<lparr>handled := handled s @ map (\<lambda>handler. (t, handler, err)) (errHandlers s t),
              worker := (worker s)(t := Select ch \<lparr>Media = None, Err = Some err\<rparr>)\<rparr>"
  | ch frame where "worker s t = Handling ch (Inr frame)"
      "s' = s\<lparr>worker := (worker s)(t := Select ch \<lparr>Media = Some frame, Err = None\<rparr>)\<rparr>"
  | "worker s t = Stream_Close"
      "s' = s\<lparr>streamCtx_done := (streamCtx_done s)(t := True),
              worker := (worker s)(t := Defer_close_frameCh)\<rparr>"
  | "worker s t = Defer_close_frameCh" "frameCh_closed s t" "s' = s\<lparr>panicked := True\<rparr>"
  | "worker s t = Defer_close_frameCh" "\<not> frameCh_closed s t"
      "s' = s\<lparr>frameCh_closed := (frameCh_closed s)(t := True),
              worker := (worker s)(t := Defer_Done)\<rparr>"
  | "worker s t = Defer_Done" "activeBackgroundWorkers s - 1 < 0" "s' = s\<lparr>panicked := True\<rparr>"
  | "worker s t = Defer_Done" "\<not> activeBackgroundWorkers s - 1 < 0"
      "s' = s\<lparr>activeBackgroundWorkers := activeBackgroundWorkers s - 1,
              worker := (worker s)(t := Exited)\<rparr>"
proof (cases "worker s t")
  case Not_Started with assms show ?thesis by (simp add: worker_step_def)
next
  case (Loop ch) with assms that(1,2) show ?thesis
    by (simp add: worker_step_def split: if_splits)
next
  case (Reading ch) with assms show ?thesis by (simp add: worker_step_def)
next
  case (Handling ch r) with assms that(3,4) show ?thesis
    by (cases r) (simp_all add: worker_step_def)
next
  case (Select ch p) with assms show ?thesis by (simp add: worker_step_def)
next
  case Stream_Close with assms that(5) show ?thesis by (simp add: worker_step_def)
next
  case Defer_close_frameCh with assms that(6,7) show ?thesis
    by (simp add: worker_step_def split: if_splits)
next
  case Defer_Done with assms that(8,9) show ?thesis
    by (simp add: worker_step_def split: if_splits)
next
  case Exited with assms show ?thesis by (simp add: worker_step_def)
qed

lemma stepE [consumes 1, case_names Call_Stream Call_Close Caller Worker Read_Returns
    Select_Done Select_Healthy Select_Send Consumer_Close]:
  assumes "step a s = Some s'"
  obtains
    t hs where "a = Call_Stream t hs" "\<not> panicked s" "caller s t = Idle"
      "s' = s\<lparr>caller := (caller s)(t := Stream_Lock), errHandlers := (errHandlers s)(t := hs)\<rparr>"
  | t where "a = Call_Close t" "\<not> panicked s" "caller s t = Idle"
      "s' = s\<lparr>caller := (caller s)(t := Close_Lock)\<rparr>"
  | t where "a = Caller t" "\<not> panicked s" "caller_step t s = Some s'"
  | t where "a = Worker t" "\<not> panicked s" "worker_step t s = Some s'"
  | t r ch where "a = Read_Returns t r" "\<not> panicked s" "worker s t = Reading ch"
      "s' = s\<lparr>worker := (worker s)(t := Handling ch r)\<rparr>"
  | t ch p where "a = Select_Done t" "\<not> panicked s" "worker s t = Select ch p" "streamCtx_done s t"
      "s' = s\<lparr>worker := (worker s)(t := Defer_close_frameCh)\<rparr>"
  | t ch p where "a = Select_Healthy t" "\<not> panicked s" "worker s t = Select ch p" "signalled s ch"
      "s' = s\<lparr>worker := (worker s)(t := Stream_Close)\<rparr>"
  | t ch p where "a = Select_Send t" "\<not> panicked s" "worker s t = Select ch p"
      "s' = s\<lparr>received := (received s)(t := received s t @ [p]), worker := (worker s)(t := Loop ch)\<rparr>"
  | t where "a = Consumer_Close t" "\<not> panicked s" "caller s t = Stream_Returned"
      "s' = s\<lparr>streamCtx_done := (streamCtx_done s)(t := True)\<rparr>"
proof -
  from assms have np: "\<not> panicked s" by (simp add: step_def split: if_splits)
  show ?thesis
  proof (cases a)
    case (Call_Stream t hs) with assms np that(1) show ?thesis
      by (simp add: step_def split: if_splits)
  next
    case (Call_Close t) with assms np that(2) show ?thesis
      by (simp add: step_def split: if_splits)
  next
    case (Caller t) with assms np that(3) show ?thesis by (simp add: step_def)
  next
    case (Worker t) with assms np that(4) show ?thesis by (simp add: step_def)
  next
    case (Read_Returns t r) with assms np that(5) show ?thesis
      by (cases "worker s t") (simp_all add: step_def)
  next
    case (Select_Done t) with assms np that(6) show ?thesis
      by (cases "worker s t") (simp_all add: step_def split: if_splits)
  next
    case (Select_Healthy t) with assms np that(7) show ?thesis
      by (cases "worker s t") (simp_all add: step_def split: if_splits)
  next
    case (Select_Send t) with assms np that(8) show ?thesis
      by (cases "worker s t") (simp_all add: step_def)
  next
    case (Consumer_Close t) with assms np that(9) show ?thesis
      by (simp add: step_def split: if_splits)
  qed
qed

lemma inv_mu_step: "inv_mu s \<Longrightarrow> step a s = Some s' \<Longrightarrow> inv_mu s'"
  apply (erule stepE; (erule caller_stepE worker_stepE)?; simp add: inv_mu_def)
  apply (metis holds_mu.simps option.inject)+
  done

lemma sees_open_holds: "sees_open pc \<Longrightarrow> holds_mu pc"
  by (cases pc) simp_all

lemma holder_unique:
  "inv_mu s \<Longrightarrow> holds_mu (caller s t) \<Longrightarrow> holds_mu (caller s t') \<Longrightarrow> t' = t"
  by (simp add: inv_mu_def)

lemma holder_mu: "inv_mu s \<Longrightarrow> holds_mu (caller s t) \<Longrightarrow> mu s = Some t"
  by (simp add: inv_mu_def)

lemma open_at:
  "inv_signal s \<Longrightarrow> sees_open (caller s t) \<Longrightarrow> healthyClientCh s = Some k \<Longrightarrow> k \<notin> closed s"
  by (auto simp: inv_signal_def)

lemma inv_signal_step:
  assumes m: "inv_mu s" and i: "inv_signal s" and st: "step a s = Some s'"
  shows "inv_signal s'"
  using st
proof (cases rule: stepE)
  case (Caller t)
  note facts = holder_unique [OF m, of t] holder_mu [OF m, of t] open_at [OF i, of t]
  from Caller(3) show ?thesis
  proof (cases rule: caller_stepE)
    case Stream_Lock
    with i show ?thesis by (auto simp: inv_signal_def)
  next
    case Stream_Make
    with i facts show ?thesis
      by (auto simp: inv_signal_def dest: sees_open_holds)
  next
    case (Stream_Reuse k)
    with i facts show ?thesis
      by (auto simp: inv_signal_def dest: sees_open_holds)
  next
    case (Stream_Unlock ch)
    with i facts show ?thesis
      by (auto simp: inv_signal_def dest: sees_open_holds)
  next
    case (Stream_Add ch)
    with i show ?thesis by (auto simp: inv_signal_def)
  next
    case (Stream_Go ch)
    with i show ?thesis by (auto simp: inv_signal_def)
  next
    case Close_Lock
    with i show ?thesis by (auto simp: inv_signal_def)
  next
    case Close_No_Signal
    with i facts show ?thesis
      by (auto simp: inv_signal_def dest: sees_open_holds)
  next
    case (Close_Panic k)
    with i show ?thesis by (auto simp: inv_signal_def)
  next
    case (Close_Signal k)
    with i facts show ?thesis
      by (auto simp: inv_signal_def dest: sees_open_holds)
  next
    case Close_Wait
    with i facts show ?thesis
      by (auto simp: inv_signal_def dest: sees_open_holds)
  next
    case Close_Nil
    with i facts show ?thesis
      by (auto simp: inv_signal_def dest: sees_open_holds)
  next
    case Close_Unlock
    with i facts show ?thesis
      by (auto simp: inv_signal_def dest: sees_open_holds)
  qed
next
  case (Worker t)
  from Worker(3) i show ?thesis
    by (cases rule: worker_stepE) (auto simp: inv_signal_def)
qed (use i in \<open>auto simp: inv_signal_def\<close>)

lemma worker_ok_iff: "worker_ok pc w = ((pc = Stream_Returned) = (w \<noteq> Not_Started))"
  by (cases pc) auto

lemma worker_at: "inv_worker s \<Longrightarrow> worker_ok (caller s t) (worker s t)"
  by (simp add: inv_worker_def)

lemma frame_at: "inv_worker s \<Longrightarrow> frame_ok (worker s t) (frameCh_closed s t)"
  by (simp add: inv_worker_def)

lemma inv_worker_change:
  assumes "inv_worker s"
    and "\<And>t'. t' \<noteq> t \<Longrightarrow> caller s' t' = caller s t' \<and> worker s' t' = worker s t' \<and>
           frameCh_closed s' t' = frameCh_closed s t'"
    and "worker_ok (caller s' t) (worker s' t)"
    and "frame_ok (worker s' t) (frameCh_closed s' t)"
  shows "inv_worker s'"
  unfolding inv_worker_def
proof
  fix t'
  show "worker_ok (caller s' t') (worker s' t') \<and> frame_ok (worker s' t') (frameCh_closed s' t')"
  proof (cases "t' = t")
    case True
    with assms(3,4) show ?thesis by simp
  next
    case False
    with assms(2) [of t'] worker_at [OF assms(1), of t'] frame_at [OF assms(1), of t']
    show ?thesis by simp
  qed
qed

lemma inv_worker_step:
  assumes i: "inv_worker s" and st: "step a s = Some s'" and np: "\<not> panicked s'"
  shows "inv_worker s'"
  using st
proof (cases rule: stepE)
  case (Caller t)
  from Caller(3) worker_at [OF i, of t] frame_at [OF i, of t] np show ?thesis
    by (cases rule: caller_stepE) (rule inv_worker_change [OF i, where t = t]; simp add: worker_ok_iff)+
next
  case (Worker t)
  from Worker(3) worker_at [OF i, of t] frame_at [OF i, of t] np show ?thesis
    by (cases rule: worker_stepE) (rule inv_worker_change [OF i, where t = t]; simp add: worker_ok_iff)+
next
  case (Call_Stream t hs)
  with worker_at [OF i, of t] frame_at [OF i, of t] show ?thesis
    by - (rule inv_worker_change [OF i, where t = t]; simp add: worker_ok_iff)
next
  case (Call_Close t)
  with worker_at [OF i, of t] frame_at [OF i, of t] show ?thesis
    by - (rule inv_worker_change [OF i, where t = t]; simp add: worker_ok_iff)
next
  case (Read_Returns t r ch)
  with worker_at [OF i, of t] frame_at [OF i, of t] show ?thesis
    by - (rule inv_worker_change [OF i, where t = t]; simp add: worker_ok_iff)
next
  case (Select_Done t ch p)
  with worker_at [OF i, of t] frame_at [OF i, of t] show ?thesis
    by - (rule inv_worker_change [OF i, where t = t]; simp add: worker_ok_iff)
next
  case (Select_Healthy t ch p)
  with worker_at [OF i, of t] frame_at [OF i, of t] show ?thesis
    by - (rule inv_worker_change [OF i, where t = t]; simp add: worker_ok_iff)
next
  case (Select_Send t ch p)
  with worker_at [OF i, of t] frame_at [OF i, of t] show ?thesis
    by - (rule inv_worker_change [OF i, where t = t]; simp add: worker_ok_iff)
next
  case (Consumer_Close t)
  with worker_at [OF i, of t] frame_at [OF i, of t] show ?thesis
    by - (rule inv_worker_change [OF i, where t = t]; simp add: worker_ok_iff)
qed

lemma inv_wg_change:
  assumes wg: "inv_wg s"
    and others: "\<And>t. t \<noteq> t0 \<Longrightarrow> counted s' t = counted s t"
    and count: "activeBackgroundWorkers s' =
       activeBackgroundWorkers s + (if counted s' t0 then 1 else 0) - (if counted s t0 then 1 else 0)"
  shows "inv_wg s'"
proof -
  define A where "A = {t. counted s t} - {t0}"
  from wg have fin: "finite {t. counted s t}"
    and c: "activeBackgroundWorkers s = int (card {t. counted s t})"
    by (simp_all add: inv_wg_def)
  have finA: "finite A" using fin by (simp add: A_def)
  have t0A: "t0 \<notin> A" by (simp add: A_def)
  have W: "{t. counted s t} = (if counted s t0 then insert t0 A else A)"
    by (auto simp: A_def)
  have "{t. counted s' t} - {t0} = A"
    using others by (auto simp: A_def)
  then have W': "{t. counted s' t} = (if counted s' t0 then insert t0 A else A)"
    by auto
  have cW: "card {t. counted s t} = (if counted s t0 then Suc (card A) else card A)"
    using finA t0A by (simp add: W)
  have cW': "card {t. counted s' t} = (if counted s' t0 then Suc (card A) else card A)"
    using finA t0A by (simp add: W')
  have "finite {t. counted s' t}" using finA by (simp add: W')
  moreover have "activeBackgroundWorkers s' = int (card {t. counted s' t})"
    unfolding count c cW cW' by simp
  ultimately show ?thesis by (simp add: inv_wg_def)
qed

lemma inv_wg_step:
  assumes w: "inv_worker s" and wg: "inv_wg s" and st: "step a s = Some s'" and np: "\<not> panicked s'"
  shows "inv_wg s'"
  using st
proof (cases rule: stepE)
  case (Caller t)
  from Caller(3) worker_at [OF w, of t] np show ?thesis
    by (cases rule: caller_stepE)
      (rule inv_wg_change [OF wg, where ?t0.0 = t]; simp add: counted_def worker_ok_iff)+
next
  case (Worker t)
  from Worker(3) worker_at [OF w, of t] np show ?thesis
    by (cases rule: worker_stepE)
      (rule inv_wg_change [OF wg, where ?t0.0 = t]; simp add: counted_def worker_ok_iff)+
next
  case (Call_Stream t hs)
  with worker_at [OF w, of t] show ?thesis
    by - (rule inv_wg_change [OF wg, where ?t0.0 = t]; simp add: counted_def worker_ok_iff)
next
  case (Call_Close t)
  with worker_at [OF w, of t] show ?thesis
    by - (rule inv_wg_change [OF wg, where ?t0.0 = t]; simp add: counted_def worker_ok_iff)
next
  case (Read_Returns t r ch)
  with worker_at [OF w, of t] show ?thesis
    by - (rule inv_wg_change [OF wg, where ?t0.0 = t]; simp add: counted_def worker_ok_iff)
next
  case (Select_Done t ch p)
  with worker_at [OF w, of t] show ?thesis
    by - (rule inv_wg_change [OF wg, where ?t0.0 = t]; simp add: counted_def worker_ok_iff)
next
  case (Select_Healthy t ch p)
  with worker_at [OF w, of t] show ?thesis
    by - (rule inv_wg_change [OF wg, where ?t0.0 = t]; simp add: counted_def worker_ok_iff)
next
  case (Select_Send t ch p)
  with worker_at [OF w, of t] show ?thesis
    by - (rule inv_wg_change [OF wg, where ?t0.0 = t]; simp add: counted_def worker_ok_iff)
next
  case (Consumer_Close t)
  with worker_at [OF w, of t] show ?thesis
    by - (rule inv_wg_change [OF wg, where ?t0.0 = t]; simp add: counted_def worker_ok_iff)
qed

lemma counted_pos:
  assumes "inv_wg s" and "counted s t"
  shows "1 \<le> activeBackgroundWorkers s"
proof -
  from assms have "finite {t. counted s t}" and "t \<in> {t. counted s t}"
    by (simp_all add: inv_wg_def)
  then have "0 < card {t. counted s t}" by (auto simp: card_gt_0_iff)
  with assms(1) show ?thesis by (simp add: inv_wg_def)
qed

lemma no_panic_step:
  assumes sg: "inv_signal s" and w: "inv_worker s" and wg: "inv_wg s"
    and st: "step a s = Some s'"
  shows "\<not> panicked s'"
  using st
proof (cases rule: stepE)
  case (Caller t)
  from Caller(3,2) open_at [OF sg, of t] show ?thesis
    by (cases rule: caller_stepE) auto
next
  case (Worker t)
  from Worker(3,2) worker_at [OF w, of t] frame_at [OF w, of t] counted_pos [OF wg, of t]
  show ?thesis
    by (cases rule: worker_stepE) (auto simp: worker_ok_iff counted_def)
qed simp_all

lemma inv_init: "inv NewClientFromConn"
  by (simp add: inv_def inv_mu_def inv_signal_def inv_worker_def inv_wg_def counted_def
      NewClientFromConn_def)

lemma inv_step: "inv s \<Longrightarrow> step a s = Some s' \<Longrightarrow> inv s'"
  unfolding inv_def
  using no_panic_step inv_mu_step inv_signal_step inv_worker_step inv_wg_step by blast

lemma inv_run: "inv s \<Longrightarrow> run sched s = Some s' \<Longrightarrow> inv s'"
proof (induction sched arbitrary: s)
  case Nil
  then show ?case by simp
next
  case (Cons a sched)
  then show ?case by (auto split: option.splits dest: inv_step)
qed






text \<open>
  A worker leaves its \<^verbatim>\<open>select\<close> only through one of the three cases.
\<close>

lemma Select_leaves:
  assumes i: "inv s" and sel: "worker s t = Select ch p" and st: "step a s = Some s'"
  shows "worker s' t = Select ch p \<or>
         (a = Select_Send t \<and> worker s' t = Loop ch \<and> received s' t = received s t @ [p]) \<or>
         (a = Select_Done t \<and> streamCtx_done s t \<and> worker s' t = Defer_close_frameCh) \<or>
         (a = Select_Healthy t \<and> signalled s ch \<and> worker s' t = Stream_Close)"
  using st
proof (cases rule: stepE)
  case (Caller t')
  from i have "inv_worker s" by (simp add: inv_def)
  from worker_at [OF this, of t] sel have "caller s t = Stream_Returned"
    by (simp add: worker_ok_iff)
  with Caller(3) sel show ?thesis
    by (cases rule: caller_stepE) auto
next
  case (Worker t')
  from Worker(3) sel show ?thesis
    by (cases rule: worker_stepE) auto
qed (use sel in auto)

section \<open>Stream and Close: the claims\<close>

lemmas step_defs = step_def caller_step_def worker_step_def signalled_def NewClientFromConn_def



text \<open>
  C2. The code does not keep the generations apart. Stream 0 captures channel 0 and
  unlocks (line 146) but has not yet run \<^verbatim>\<open>Add(1)\<close> (line 151); \<^verbatim>\<open>Close\<close> 1 closes
  channel 0, finds the counter zero, and returns; Stream 2 makes channel 1. Then stream 0
  adds itself and starts its worker, which reads a frame and sends it: the state after
  this schedule has \<^verbatim>\<open>Close\<close> returned, channel 1 current, channel 0 closed, and the worker
  bound to channel 0 has published a frame and is back at the top of its loop.
\<close>

theorem late_worker_publishes_after_next_generation:
  "map_option (\<lambda>s. (caller s 1, healthyClientCh s, 0 \<in> closed s, activeBackgroundWorkers s,
                      worker s 0, received s 0, panicked s))
     (run [Call_Stream 0 [], Caller 0, Caller 0, Caller 0,
           Call_Close 1, Caller 1, Caller 1, Caller 1, Caller 1, Caller 1,
           Call_Stream 2 [], Caller 2, Caller 2,
           Caller 0, Caller 0, Worker 0, Read_Returns 0 (Inr frame), Worker 0, Select_Send 0]
        NewClientFromConn)
   = Some (Close_Returned, Some 1, True, 1, Loop (Some 0), [\<lparr>Media = Some frame, Err = None\<rparr>], False)"
  by (simp add: step_defs)



text \<open>
  C6. In any reachable state: when \<^verbatim>\<open>c.Read\<close> returns an error to a worker, the worker goes
  on to the handlers; its next statement calls every handler passed to \<^verbatim>\<open>Stream\<close>, in
  order, with that error, and brings it to the \<^verbatim>\<open>select\<close> offering the pair of a nil frame
  and the error; there the send case can be taken, the consumer receives the pair, and the
  worker is back at the top of the loop, from where it reads again unless the stream's
  context is done. Whatever step is taken while the worker is at the \<^verbatim>\<open>select\<close>, the worker
  stays there, sends, or leaves the loop because the context is done or the signal
  channel is closed: the error alone ends nothing.
\<close>

theorem worker_forwards_Read_error:
  assumes reach: "run sched NewClientFromConn = Some s"
  shows "(worker s t = Reading ch \<longrightarrow>
            (\<exists>s'. step (Read_Returns t (Inl err)) s = Some s' \<and>
                  worker s' t = Handling ch (Inl err))) \<and>
         (worker s t = Handling ch (Inl err) \<longrightarrow>
            (\<exists>s'. step (Worker t) s = Some s' \<and>
                  handled s' = handled s @ map (\<lambda>handler. (t, handler, err)) (errHandlers s t) \<and>
                  worker s' t = Select ch \<lparr>Media = None, Err = Some err\<rparr>)) \<and>
         (worker s t = Select ch p \<longrightarrow>
            (\<exists>s'. step (Select_Send t) s = Some s' \<and>
                  received s' t = received s t @ [p] \<and> worker s' t = Loop ch) \<and>
            (\<forall>a s'. step a s = Some s' \<longrightarrow>
                  worker s' t = Select ch p \<or>
                  (a = Select_Send t \<and> worker s' t = Loop ch \<and> received s' t = received s t @ [p]) \<or>
                  (a = Select_Done t \<and> streamCtx_done s t \<and> worker s' t = Defer_close_frameCh) \<or>
                  (a = Select_Healthy t \<and> signalled s ch \<and> worker s' t = Stream_Close))) \<and>
         (worker s t = Loop ch \<longrightarrow> \<not> streamCtx_done s t \<longrightarrow>
            (\<exists>s'. step (Worker t) s = Some s' \<and> worker s' t = Reading ch))"
proof -
  from inv_run [OF inv_init reach] have i: "inv s" .
  then have np: "\<not> panicked s" by (simp add: inv_def)
  have reading: "\<exists>s'. step (Read_Returns t (Inl err)) s = Some s' \<and>
      worker s' t = Handling ch (Inl err)"
    if "worker s t = Reading ch"
    using that np by (simp add: step_def)
  have handling: "\<exists>s'. step (Worker t) s = Some s' \<and>
      handled s' = handled s @ map (\<lambda>handler. (t, handler, err)) (errHandlers s t) \<and>
      worker s' t = Select ch \<lparr>Media = None, Err = Some err\<rparr>"
    if "worker s t = Handling ch (Inl err)"
    using that np by (simp add: step_def worker_step_def)
  have sending: "\<exists>s'. step (Select_Send t) s = Some s' \<and>
      received s' t = received s t @ [p] \<and> worker s' t = Loop ch"
    if "worker s t = Select ch p"
    using that np by (simp add: step_def)
  have leaving: "\<forall>a s'. step a s = Some s' \<longrightarrow>
      worker s' t = Select ch p \<or>
      (a = Select_Send t \<and> worker s' t = Loop ch \<and> received s' t = received s t @ [p]) \<or>
      (a = Select_Done t \<and> streamCtx_done s t \<and> worker s' t = Defer_close_frameCh) \<or>
      (a = Select_Healthy t \<and> signalled s ch \<and> worker s' t = Stream_Close)"
    if sel: "worker s t = Select ch p"
    using Select_leaves [OF i sel] by blast
  have looping: "\<exists>s'. step (Worker t) s = Some s' \<and> worker s' t = Reading ch"
    if "worker s t = Loop ch" and "\<not> streamCtx_done s t"
    using that np by (simp add: step_def worker_step_def)
  from reading handling sending leaving looping show ?thesis by blast
qed

theorem worker_forwards_Read_error_witness:
  "\<exists>s1 s2 s3 s4.
     run [Call_Stream 0 [7, 8], Caller 0, Caller 0, Caller 0, Caller 0, Caller 0, Worker 0]
       (NewClientFromConn :: nat client) = Some s1 \<and>
     worker s1 0 = Reading (Some 0) \<and>
     step (Read_Returns 0 (Inl ''rpc error'')) s1 = Some s2 \<and>
     worker s2 0 = Handling (Some 0) (Inl ''rpc error'') \<and>
     step (Worker 0) s2 = Some s3 \<and>
     handled s3 = [(0, 7, ''rpc error''), (0, 8, ''rpc error'')] \<and>
     worker s3 0 = Select (Some 0) \<lparr>Media = None, Err = Some ''rpc error''\<rparr> \<and>
     step (Select_Send 0) s3 = Some s4 \<and>
     received s4 0 = [\<lparr>Media = None, Err = Some ''rpc error''\<rparr>] \<and>
     worker s4 0 = Loop (Some 0) \<and>
     (\<exists>s5. step (Worker 0) s4 = Some s5 \<and> worker s5 0 = Reading (Some 0))"
proof -
  let ?sched = "[Call_Stream 0 [7, 8], Caller 0, Caller 0, Caller 0, Caller 0, Caller 0, Worker 0]
    :: nat action list"
  let ?e = "Inl ''rpc error'' :: error + nat"
  let ?p = "\<lparr>Media = None :: nat option, Err = Some ''rpc error''\<rparr>"
  obtain s1 where r1: "run ?sched (NewClientFromConn :: nat client) = Some s1"
    by (simp add: step_defs)
  from r1 have f1: "worker s1 0 = Reading (Some 0)"
    by (auto simp: step_defs)
  from worker_forwards_Read_error [OF r1, of 0 "Some 0" "''rpc error''"] f1
  obtain s2 where s2: "step (Read_Returns 0 ?e) s1 = Some s2"
      "worker s2 0 = Handling (Some 0) ?e"
    by blast
  from r1 s2(1) have r2: "run (?sched @ [Read_Returns 0 ?e]) (NewClientFromConn :: nat client) = Some s2"
    by (auto simp: step_defs)
  from r1 s2(1) have f2: "handled s2 = []" "errHandlers s2 0 = [7, 8]"
    by (auto simp: step_defs)
  from worker_forwards_Read_error [OF r2, of 0 "Some 0" "''rpc error''"] s2(2) f2
  obtain s3 where s3: "step (Worker 0) s2 = Some s3"
      "handled s3 = [(0, 7, ''rpc error''), (0, 8, ''rpc error'')]"
      "worker s3 0 = Select (Some 0) ?p"
    by auto
  from r2 s3(1) have r3: "run (?sched @ [Read_Returns 0 ?e, Worker 0]) (NewClientFromConn :: nat client) = Some s3"
    by (auto simp: step_defs)
  from r2 s3(1) have f3: "received s3 0 = []"
    by (auto simp: step_defs)
  from worker_forwards_Read_error [OF r3, of 0 "Some 0" _ ?p] s3(3) f3
  obtain s4 where s4: "step (Select_Send 0) s3 = Some s4" "received s4 0 = [?p]"
      "worker s4 0 = Loop (Some 0)"
    by auto
  from r3 s4(1) have r4: "run (?sched @ [Read_Returns 0 ?e, Worker 0, Select_Send 0])
      (NewClientFromConn :: nat client) = Some s4"
    by (auto simp: step_defs)
  from r3 s4(1) have f4: "\<not> streamCtx_done s4 0"
    by (auto simp: step_defs)
  from worker_forwards_Read_error [OF r4, of 0 "Some 0"] s4(3) f4
  have "\<exists>s5. step (Worker 0) s4 = Some s5 \<and> worker s5 0 = Reading (Some 0)"
    by auto
  with r1 f1 s2 s3 s4 show ?thesis by blast
qed

end
